theory Spec2Isabelle
  imports Complex_Main
begin

section \<open>The viseme mapper of the avatar backend (\<^verbatim>\<open>src/backend/app.py\<close>)\<close>

text \<open>
  The class \<^verbatim>\<open>VisemeMapper\<close> holds a phoneme table, a lookup that normalises its
  label, and a generator that spreads the characters of a text over an audio duration.
  The embedding follows the Python line by line.

  \<^item> A Python \<^verbatim>\<open>str\<close> is a \<open>string\<close>, one \<open>char\<close> per code point; the model
    covers the code points 0 to 255 (ASCII and Latin-1), on which \<^verbatim>\<open>str.lower\<close>,
    \<^verbatim>\<open>str.isspace\<close>, \<^verbatim>\<open>str.strip\<close> and \<^verbatim>\<open>str.split\<close> are written out below.
  \<^item> A Python \<^verbatim>\<open>float\<close> is a \<open>real\<close>: durations and offsets are computed exactly,
    rounding is not part of the model.
  \<^item> A dictionary literal is an association list in source order, read with
    \<open>map_of\<close>; no key is written twice in either table, so the first binding is the
    only one.
  \<^item> What Python raises is a value: a division and a subscript return
    \<open>py_error + 'a\<close>, and every function that calls them passes the error on.
\<close>

subsection \<open>Errors and the fallible primitives\<close>

datatype py_error = ZeroDivisionError | KeyError

text \<open>\<^verbatim>\<open>x / n\<close> for a float \<open>x\<close> and an integer \<open>n\<close> (a length, so never negative).\<close>

definition py_truediv :: "real \<Rightarrow> nat \<Rightarrow> py_error + real" where
  "py_truediv x n = (if n = 0 then Inl ZeroDivisionError else Inr (x / real n))"

text \<open>\<^verbatim>\<open>d.get(k, dflt)\<close>, \<^verbatim>\<open>k in d\<close> and \<^verbatim>\<open>d[k]\<close> on a dictionary literal.\<close>

definition dict_get :: "('k \<times> 'v) list \<Rightarrow> 'k \<Rightarrow> 'v \<Rightarrow> 'v" where
  "dict_get d k dflt = (case map_of d k of None \<Rightarrow> dflt | Some v \<Rightarrow> v)"

definition dict_contains :: "('k \<times> 'v) list \<Rightarrow> 'k \<Rightarrow> bool" where
  "dict_contains d k = (case map_of d k of None \<Rightarrow> False | Some v \<Rightarrow> True)"

definition dict_item :: "('k \<times> 'v) list \<Rightarrow> 'k \<Rightarrow> py_error + 'v" where
  "dict_item d k = (case map_of d k of None \<Rightarrow> Inl KeyError | Some v \<Rightarrow> Inr v)"

subsection \<open>Strings\<close>

text \<open>
  \<^verbatim>\<open>str.isspace\<close> on one code point below 256: tab to carriage return, the four
  separators 28 to 31, the space, NEL (133) and the no-break space (160).
\<close>

definition py_isspace :: "char \<Rightarrow> bool" where
  "py_isspace c = (of_char c \<in> {9, 10, 11, 12, 13, 28, 29, 30, 31, 32, 133, 160 :: nat})"

text \<open>
  \<^verbatim>\<open>str.lower\<close> on one code point below 256: A to Z, and the Latin-1 capitals 192 to
  222 but the multiplication sign 215, move up by 32; every other code point stays.
\<close>

definition py_lower_char :: "char \<Rightarrow> char" where
  "py_lower_char c =
     (let n = of_char c :: nat
      in if (65 \<le> n \<and> n \<le> 90) \<or> (192 \<le> n \<and> n \<le> 222 \<and> n \<noteq> 215)
         then char_of (n + 32) else c)"

definition py_lower :: "string \<Rightarrow> string" where
  "py_lower s = map py_lower_char s"

text \<open>\<^verbatim>\<open>str.strip()\<close>: leading and trailing whitespace removed.\<close>

definition py_strip :: "string \<Rightarrow> string" where
  "py_strip s = rev (dropWhile py_isspace (rev (dropWhile py_isspace s)))"

text \<open>
  \<^verbatim>\<open>str.split()\<close> with no argument: the maximal runs of non-whitespace, in order.
  \<open>split_scan\<close> reads the text left to right; \<open>word\<close> is the run read so far.
\<close>

fun split_scan :: "string \<Rightarrow> string \<Rightarrow> string list" where
  "split_scan word [] = (if word = [] then [] else [word])"
| "split_scan word (c # cs) =
     (if py_isspace c
      then (if word = [] then split_scan [] cs else word # split_scan [] cs)
      else split_scan (word @ [c]) cs)"

definition py_split :: "string \<Rightarrow> string list" where
  "py_split s = split_scan [] s"

subsection \<open>The class \<^verbatim>\<open>VisemeMapper\<close>\<close>

text \<open>The class constant \<^verbatim>\<open>VISEME_MAP\<close>, in source order.\<close>

definition VISEME_MAP :: "(string \<times> int) list" where
  "VISEME_MAP =
     [(''sil'', 0), (''sp'', 0), ('''', 0),
      (''p'', 1), (''b'', 1), (''m'', 1),
      (''f'', 2), (''v'', 2),
      (''th'', 3), (''dh'', 3),
      (''t'', 4), (''d'', 4), (''n'', 4), (''l'', 4), (''s'', 4), (''z'', 4),
      (''sh'', 5), (''zh'', 5), (''ch'', 5), (''jh'', 5), (''r'', 5),
      (''k'', 6), (''g'', 6), (''ng'', 6), (''y'', 6), (''w'', 6),
      (''h'', 7),
      (''aa'', 8), (''ao'', 8),
      (''ae'', 9), (''ah'', 9),
      (''eh'', 10), (''er'', 10),
      (''ih'', 11), (''iy'', 11),
      (''ow'', 12), (''oo'', 12), (''uh'', 12), (''uw'', 12),
      (''ay'', 13), (''ey'', 13),
      (''oy'', 14), (''aw'', 14)]"

text \<open>\<^verbatim>\<open>__init__\<close> sets the one instance attribute.\<close>

record VisemeMapper =
  viseme_count :: int

definition init_VisemeMapper :: VisemeMapper where
  "init_VisemeMapper = \<lparr>viseme_count = 15\<rparr>"

text \<open>
  \<^verbatim>\<open>phoneme_to_viseme\<close>: \<^verbatim>\<open>str(phoneme).lower().strip()\<close>, then
  \<^verbatim>\<open>VISEME_MAP.get(phoneme, 0)\<close>. The argument is a string, on which \<^verbatim>\<open>str\<close> is
  the identity.
\<close>

definition normalize_phoneme :: "string \<Rightarrow> string" where
  "normalize_phoneme phoneme = py_strip (py_lower phoneme)"

definition phoneme_to_viseme :: "string \<Rightarrow> int" where
  "phoneme_to_viseme phoneme = dict_get VISEME_MAP (normalize_phoneme phoneme) 0"

text \<open>The local table of \<^verbatim>\<open>_word_to_visemes\<close>, in source order.\<close>

definition letter_to_viseme :: "(string \<times> int) list" where
  "letter_to_viseme =
     [(''a'', 8), (''e'', 10), (''i'', 11), (''o'', 12), (''u'', 12),
      (''p'', 1), (''b'', 1), (''m'', 1),
      (''f'', 2), (''v'', 2),
      (''t'', 4), (''d'', 4), (''n'', 4), (''l'', 4), (''s'', 4),
      (''r'', 5), (''ch'', 5), (''sh'', 5),
      (''k'', 6), (''g'', 6), (''w'', 6), (''y'', 6),
      (''h'', 7)]"

text \<open>
  The body of the loop \<^verbatim>\<open>for char in word\<close>, as the value it appends: \<open>char\<close>
  is a string of length one, written \<open>[char]\<close>, so the test and the subscript
  compare it with whole keys of the table.
\<close>

definition char_to_viseme :: "char \<Rightarrow> py_error + int" where
  "char_to_viseme char =
     (if dict_contains letter_to_viseme [char]
      then dict_item letter_to_viseme [char]
      else Inr 0)"

text \<open>The loop itself; \<open>visemes\<close> is the list built so far.\<close>

fun char_loop :: "string \<Rightarrow> int list \<Rightarrow> py_error + int list" where
  "char_loop [] visemes = Inr visemes"
| "char_loop (char # rest) visemes =
     (case char_to_viseme char of
        Inl e \<Rightarrow> Inl e
      | Inr v \<Rightarrow> char_loop rest (visemes @ [v]))"

text \<open>\<^verbatim>\<open>_word_to_visemes\<close>, ending with \<^verbatim>\<open>return visemes if visemes else [0]\<close>.\<close>

definition word_to_visemes :: "string \<Rightarrow> py_error + int list" where
  "word_to_visemes word =
     (case char_loop word [] of
        Inl e \<Rightarrow> Inl e
      | Inr visemes \<Rightarrow> Inr (if visemes \<noteq> [] then visemes else [0]))"

text \<open>One entry of the result, a dictionary with three fixed keys.\<close>

record entry =
  viseme_id :: int
  time_offset :: real
  duration :: real

text \<open>
  The inner loop \<^verbatim>\<open>for viseme_id in viseme_sequence\<close>: it appends one entry and moves
  \<open>current_time\<close> on.
\<close>

fun viseme_loop :: "int list \<Rightarrow> real \<Rightarrow> entry list \<Rightarrow> real \<Rightarrow> entry list \<times> real" where
  "viseme_loop [] viseme_duration visemes current_time = (visemes, current_time)"
| "viseme_loop (vid # rest) viseme_duration visemes current_time =
     viseme_loop rest viseme_duration
       (visemes @ [\<lparr>viseme_id = vid, time_offset = current_time, duration = viseme_duration\<rparr>])
       (current_time + viseme_duration)"

text \<open>The outer loop \<^verbatim>\<open>for word in words\<close>.\<close>

fun word_loop :: "string list \<Rightarrow> real \<Rightarrow> entry list \<Rightarrow> real \<Rightarrow> py_error + entry list" where
  "word_loop [] time_per_word visemes current_time = Inr visemes"
| "word_loop (word # rest) time_per_word visemes current_time =
     (let word_duration = time_per_word
      in case word_to_visemes word of
           Inl e \<Rightarrow> Inl e
         | Inr viseme_sequence \<Rightarrow>
             (case py_truediv word_duration (max (length viseme_sequence) 1) of
                Inl e \<Rightarrow> Inl e
              | Inr viseme_duration \<Rightarrow>
                  (case viseme_loop viseme_sequence viseme_duration visemes current_time of
                     (visemes', current_time') \<Rightarrow>
                       word_loop rest time_per_word visemes' current_time')))"

text \<open>\<^verbatim>\<open>generate_viseme_sequence\<close>.\<close>

definition time_per_word :: "string list \<Rightarrow> real \<Rightarrow> py_error + real" where
  "time_per_word words audio_duration = py_truediv audio_duration (max (length words) 1)"

definition generate_viseme_sequence :: "string \<Rightarrow> real \<Rightarrow> py_error + entry list" where
  "generate_viseme_sequence text audio_duration =
     (let words = py_split (py_lower text)
      in case time_per_word words audio_duration of
           Inl e \<Rightarrow> Inl e
         | Inr tpw \<Rightarrow> word_loop words tpw [] 0)"

subsection \<open>Notions used in the proofs\<close>

text \<open>The values of the letter table, with the silence of an unknown character.\<close>

definition letter_ids :: "int set" where
  "letter_ids = {0, 1, 2, 4, 5, 6, 7, 8, 10, 11, 12}"

text \<open>
  \<open>tiles s es t\<close>: the entries \<open>es\<close> follow one another without gap from time \<open>s\<close>
  up to time \<open>t\<close>.
\<close>

fun tiles :: "real \<Rightarrow> entry list \<Rightarrow> real \<Rightarrow> bool" where
  "tiles s [] t = (s = t)"
| "tiles s (e # es) t = (time_offset e = s \<and> tiles (s + duration e) es t)"

section \<open>Properties\<close>

subsection \<open>The lookups and the character loop\<close>

lemma char_to_viseme_cases:
  "(map_of letter_to_viseme [c] = None \<and> char_to_viseme c = Inr 0) \<or>
   (\<exists>v. map_of letter_to_viseme [c] = Some v \<and> char_to_viseme c = Inr v)"
  by (auto simp: char_to_viseme_def dict_contains_def dict_item_def split: option.splits)

lemma letter_to_viseme_values:
  "map_of letter_to_viseme k = Some v \<Longrightarrow> v \<in> letter_ids"
  by (drule map_of_SomeD) (auto simp: letter_to_viseme_def letter_ids_def)

lemma char_to_viseme_total: "\<exists>v. char_to_viseme c = Inr v \<and> v \<in> letter_ids"
  using char_to_viseme_cases [of c] letter_to_viseme_values [of "[c]"]
  by (auto simp: letter_ids_def)

lemma char_loop_total:
  "set acc \<subseteq> letter_ids \<Longrightarrow>
   \<exists>vs. char_loop w acc = Inr vs \<and> length vs = length acc + length w \<and> set vs \<subseteq> letter_ids"
proof (induction w arbitrary: acc)
  case Nil
  then show ?case by simp
next
  case (Cons c w)
  obtain v where v: "char_to_viseme c = Inr v" "v \<in> letter_ids"
    using char_to_viseme_total by blast
  with Cons.prems have "set (acc @ [v]) \<subseteq> letter_ids" by simp
  from Cons.IH [OF this] v show ?case by auto
qed

lemma word_to_visemes_total:
  "\<exists>vs. word_to_visemes w = Inr vs \<and> vs \<noteq> [] \<and> set vs \<subseteq> letter_ids"
proof -
  obtain vs where vs: "char_loop w [] = Inr vs" "set vs \<subseteq> letter_ids"
    using char_loop_total [of "[]" w] by auto
  then show ?thesis
    by (auto simp: word_to_visemes_def letter_ids_def)
qed

lemma tiles_snoc:
  "tiles s es t \<Longrightarrow> tiles s (es @ [\<lparr>viseme_id = v, time_offset = t, duration = d\<rparr>]) (t + d)"
  by (induction es arbitrary: s) auto

lemma viseme_loop_tiles:
  "tiles s acc t \<Longrightarrow> viseme_loop vs d acc t = (acc', t') \<Longrightarrow>
   tiles s acc' t' \<and> t' = t + real (length vs) * d"
proof (induction vs arbitrary: acc t)
  case Nil
  then show ?case by simp
next
  case (Cons v vs)
  from Cons.prems(1) have "tiles s (acc @ [\<lparr>viseme_id = v, time_offset = t, duration = d\<rparr>]) (t + d)"
    by (rule tiles_snoc)
  moreover from Cons.prems(2)
  have "viseme_loop vs d (acc @ [\<lparr>viseme_id = v, time_offset = t, duration = d\<rparr>]) (t + d) = (acc', t')"
    by simp
  ultimately have "tiles s acc' t'" and "t' = (t + d) + real (length vs) * d"
    using Cons.IH by blast+
  then show ?case by (simp add: algebra_simps)
qed

lemma viseme_loop_entries:
  "viseme_loop vs d acc t = (acc', t') \<Longrightarrow>
   set acc' \<subseteq> set acc \<union> {e. viseme_id e \<in> set vs \<and> duration e = d}"
proof (induction vs arbitrary: acc t)
  case Nil
  then show ?case by auto
next
  case (Cons v vs)
  from Cons.prems have "viseme_loop vs d (acc @ [\<lparr>viseme_id = v, time_offset = t, duration = d\<rparr>]) (t + d) = (acc', t')"
    by simp
  from Cons.IH [OF this] show ?case by auto
qed

lemma guarded_div:
  "xs \<noteq> [] \<Longrightarrow> py_truediv x (max (length xs) 1) = Inr (x / real (length xs))"
  by (cases xs) (simp_all add: py_truediv_def)

lemma word_loop_tiles:
  "tiles s acc t \<Longrightarrow>
   \<exists>es. word_loop ws tpw acc t = Inr es \<and> tiles s es (t + real (length ws) * tpw)"
proof (induction ws arbitrary: acc t)
  case Nil
  then show ?case by simp
next
  case (Cons w ws)
  obtain vs where vs: "word_to_visemes w = Inr vs" "vs \<noteq> []"
    using word_to_visemes_total by blast
  define d where "d = tpw / real (length vs)"
  have div: "py_truediv tpw (max (length vs) 1) = Inr d"
    unfolding d_def using vs(2) by (rule guarded_div)
  obtain acc' t' where loop: "viseme_loop vs d acc t = (acc', t')"
    by (cases "viseme_loop vs d acc t") 
  from viseme_loop_tiles [OF Cons.prems loop]
  have acc': "tiles s acc' t'" and "t' = t + real (length vs) * d"
    by blast+
  with vs(2) have t': "t' = t + tpw"
    by (simp add: d_def)
  from Cons.IH [OF acc'] obtain es
    where es: "word_loop ws tpw acc' t' = Inr es" "tiles s es (t' + real (length ws) * tpw)"
    by blast
  have "word_loop (w # ws) tpw acc t = Inr es"
    using vs(1) div loop es(1) by simp
  moreover have "tiles s es (t + real (length (w # ws)) * tpw)"
    using es(2) t' by (simp add: algebra_simps)
  ultimately show ?case by blast
qed





lemma word_loop_entries:
  "word_loop ws tpw acc t = Inr es \<Longrightarrow>
   set es \<subseteq> set acc \<union>
     {e. viseme_id e \<in> letter_ids \<and> (\<exists>n. 0 < n \<and> duration e = tpw / real n)}"
proof (induction ws arbitrary: acc t)
  case Nil
  then show ?case by auto
next
  case (Cons w ws)
  obtain vs where vs: "word_to_visemes w = Inr vs" "vs \<noteq> []" "set vs \<subseteq> letter_ids"
    using word_to_visemes_total by blast
  define d where "d = tpw / real (length vs)"
  have div: "py_truediv tpw (max (length vs) 1) = Inr d"
    unfolding d_def using vs(2) by (rule guarded_div)
  obtain acc' t' where loop: "viseme_loop vs d acc t = (acc', t')"
    by (cases "viseme_loop vs d acc t")
  from Cons.prems have "word_loop ws tpw acc' t' = Inr es"
    using vs(1) div loop by simp
  from Cons.IH [OF this]
  have rest: "set es \<subseteq> set acc' \<union>
      {e. viseme_id e \<in> letter_ids \<and> (\<exists>n. 0 < n \<and> duration e = tpw / real n)}" .
  have "0 < length vs"
    using vs(2) by simp
  then have "{e. viseme_id e \<in> set vs \<and> duration e = d} \<subseteq>
      {e. viseme_id e \<in> letter_ids \<and> (\<exists>n. 0 < n \<and> duration e = tpw / real n)}"
    using vs(3) unfolding d_def by blast
  with viseme_loop_entries [OF loop]
  have "set acc' \<subseteq> set acc \<union>
      {e. viseme_id e \<in> letter_ids \<and> (\<exists>n. 0 < n \<and> duration e = tpw / real n)}"
    by blast
  with rest show ?case by blast
qed

subsection \<open>The generator as a whole\<close>

lemma char_loop_map:
  "char_loop w acc = Inr (acc @ map (\<lambda>c. dict_get letter_to_viseme [c] 0) w)"
proof (induction w arbitrary: acc)
  case Nil
  then show ?case by simp
next
  case (Cons c w)
  have "char_to_viseme c = Inr (dict_get letter_to_viseme [c] 0)"
    by (simp add: char_to_viseme_def dict_contains_def dict_item_def dict_get_def
        split: option.splits)
  with Cons.IH [of "acc @ [dict_get letter_to_viseme [c] 0]"] show ?case by simp
qed

lemma word_to_visemes_map:
  "word_to_visemes w =
     Inr (if w = [] then [0] else map (\<lambda>c. dict_get letter_to_viseme [c] 0) w)"
  by (simp add: word_to_visemes_def char_loop_map)

lemma time_per_word_guarded:
  "time_per_word ws D = Inr (D / real (max (length ws) 1))"
  by (simp add: time_per_word_def py_truediv_def)

lemma generate_result:
  "\<exists>es. generate_viseme_sequence text D = Inr es \<and>
     tiles 0 es (real (length (py_split (py_lower text))) *
       (D / real (max (length (py_split (py_lower text))) 1))) \<and>
     set es \<subseteq> {e. viseme_id e \<in> letter_ids \<and>
       (\<exists>n. 0 < n \<and>
          duration e = D / real (max (length (py_split (py_lower text))) 1) / real n)}"
proof -
  define ws where "ws = py_split (py_lower text)"
  define tpw where "tpw = D / real (max (length ws) 1)"
  have "tiles 0 [] 0" by simp
  from word_loop_tiles [OF this, of ws tpw] obtain es
    where es: "word_loop ws tpw [] 0 = Inr es" "tiles 0 es (real (length ws) * tpw)"
    by auto
  have "generate_viseme_sequence text D = Inr es"
    using es(1) time_per_word_guarded [of ws D]
    by (simp add: generate_viseme_sequence_def ws_def tpw_def Let_def)
  moreover from word_loop_entries [OF es(1)]
  have "set es \<subseteq> {e. viseme_id e \<in> letter_ids \<and> (\<exists>n. 0 < n \<and> duration e = tpw / real n)}"
    by simp
  ultimately show ?thesis using es(2) unfolding tpw_def ws_def by blast
qed

lemma split_scan_Nil_iff:
  "split_scan w s = [] \<longleftrightarrow> w = [] \<and> (\<forall>c\<in>set s. py_isspace c)"
  by (induction s arbitrary: w) auto

lemma of_char_lower:
  "of_char (py_lower_char c) =
     (let n = of_char c :: nat
      in if (65 \<le> n \<and> n \<le> 90) \<or> (192 \<le> n \<and> n \<le> 222 \<and> n \<noteq> 215) then n + 32 else n)"
  by (simp add: py_lower_char_def Let_def)

lemma py_isspace_lower: "py_isspace (py_lower_char c) = py_isspace c"
  unfolding py_isspace_def of_char_lower Let_def by auto

lemma py_split_Nil_iff: "py_split (py_lower s) = [] \<longleftrightarrow> (\<forall>c\<in>set s. py_isspace c)"
  by (simp add: py_split_def split_scan_Nil_iff py_lower_def py_isspace_lower)

subsection \<open>Normalisation of a phoneme label\<close>

text \<open>
  Lower-casing moves no code point into or out of the whitespace, so it commutes with
  stripping; both are idempotent, and so is their composition.
\<close>

lemma py_lower_char_idem: "py_lower_char (py_lower_char c) = py_lower_char c"
proof -
  have "(of_char (py_lower_char (py_lower_char c)) :: nat) = of_char (py_lower_char c)"
    unfolding of_char_lower [of "py_lower_char c"]
    unfolding of_char_lower [of c] Let_def
    by auto
  then show ?thesis by simp
qed

lemma py_lower_idem: "py_lower (py_lower s) = py_lower s"
  by (simp add: py_lower_def py_lower_char_idem)

lemma dropWhile_isspace_lower:
  "dropWhile py_isspace (py_lower s) = py_lower (dropWhile py_isspace s)"
  by (induction s) (simp_all add: py_lower_def py_isspace_lower)

lemma py_strip_lower: "py_strip (py_lower s) = py_lower (py_strip s)"
proof -
  have "rev (py_lower s) = py_lower (rev s)" for s
    by (simp add: py_lower_def rev_map)
  then show ?thesis
    by (simp add: py_strip_def dropWhile_isspace_lower)
qed

lemma dropWhile_unchanged: "xs = [] \<or> \<not> P (hd xs) \<Longrightarrow> dropWhile P xs = xs"
  by (cases xs) auto

lemma py_strip_idem: "py_strip (py_strip s) = py_strip s"
proof -
  define t where "t = dropWhile py_isspace s"
  define u where "u = rev (dropWhile py_isspace (rev t))"
  have t: "t = [] \<or> \<not> py_isspace (hd t)"
    unfolding t_def using hd_dropWhile [of py_isspace s] by blast
  have "rev t = takeWhile py_isspace (rev t) @ dropWhile py_isspace (rev t)"
    by simp
  then have "rev (rev t) = u @ rev (takeWhile py_isspace (rev t))"
    unfolding u_def by (metis rev_append)
  then have split: "t = u @ rev (takeWhile py_isspace (rev t))"
    by simp
  have "u = [] \<or> \<not> py_isspace (hd u)"
  proof (cases u)
    case Nil
    then show ?thesis by simp
  next
    case (Cons a u')
    with split have "t \<noteq> []" and "hd t = hd u"
      by (metis append_is_Nil_conv list.distinct(1), metis hd_append2 list.distinct(1))
    with t show ?thesis by simp
  qed
  then have "dropWhile py_isspace u = u"
    by (rule dropWhile_unchanged)
  then have "py_strip u = rev (dropWhile py_isspace (rev u))"
    by (simp add: py_strip_def)
  also have "\<dots> = u"
    by (simp add: u_def)
  finally show ?thesis
    by (simp add: u_def t_def py_strip_def)
qed

lemma normalize_phoneme_idem:
  "normalize_phoneme (normalize_phoneme p) = normalize_phoneme p"
  by (simp add: normalize_phoneme_def py_strip_lower py_lower_idem py_strip_idem)

lemma map_of_filter_key:
  "P k \<Longrightarrow> map_of (filter (\<lambda>(k', v). P k') xs) k = map_of xs k"
  by (induction xs) auto

subsection \<open>The tables as dictionaries\<close>

text \<open>
  No key is written twice in either literal, so reading the association list with
  \<open>map_of\<close> agrees with the dictionary Python builds from it.
\<close>

lemma VISEME_MAP_keys_distinct: "distinct (map fst VISEME_MAP)"
  by (simp add: VISEME_MAP_def)

lemma letter_to_viseme_keys_distinct: "distinct (map fst letter_to_viseme)"
  by (simp add: letter_to_viseme_def)

text \<open>The words that \<open>py_split\<close> returns are non-empty and free of whitespace.\<close>

lemma split_scan_words:
  "\<forall>c\<in>set w. \<not> py_isspace c \<Longrightarrow> x \<in> set (split_scan w s) \<Longrightarrow>
   x \<noteq> [] \<and> (\<forall>c\<in>set x. \<not> py_isspace c)"
proof (induction s arbitrary: w)
  case Nil
  then show ?case by (auto split: if_splits)
next
  case (Cons a s)
  show ?case
  proof (cases "py_isspace a")
    case True
    with Cons.prems(2) have "x = w \<and> w \<noteq> [] \<or> x \<in> set (split_scan [] s)"
      by (auto split: if_splits)
    then show ?thesis
      using Cons.prems(1) Cons.IH [of "[]"] by auto
  next
    case False
    with Cons.prems have "\<forall>c\<in>set (w @ [a]). \<not> py_isspace c"
      and "x \<in> set (split_scan (w @ [a]) s)"
      by auto
    then show ?thesis by (rule Cons.IH)
  qed
qed

lemma py_split_words:
  "x \<in> set (py_split s) \<Longrightarrow> x \<noteq> [] \<and> (\<forall>c\<in>set x. \<not> py_isspace c)"
  unfolding py_split_def using split_scan_words [of "[]" x s] by simp

section \<open>The claims\<close>





text \<open>
  C3 (totality). \<^verbatim>\<open>generate_viseme_sequence\<close> never raises: for every text (the
  empty one too) and every duration (0 too) it returns a list of entries; so does
  \<^verbatim>\<open>_word_to_visemes\<close> for every word. Both divisions have the denominator
  \<open>max n 1\<close>, on which the division returns a quotient for every \<open>n\<close>, 0 included.
\<close>

theorem generate_never_raises:
  "(\<exists>es. generate_viseme_sequence text D = Inr es) \<and>
   (\<exists>vs. word_to_visemes word = Inr vs) \<and>
   (\<exists>q. py_truediv x (max n 1) = Inr q) \<and>
   (\<exists>tpw. time_per_word words D = Inr tpw)"
proof -
  have "\<exists>es. generate_viseme_sequence text D = Inr es"
    using generate_result [of "text" D] by blast
  moreover have "\<exists>vs. word_to_visemes word = Inr vs"
    using word_to_visemes_total [of word] by blast
  moreover have "\<exists>q. py_truediv x (max n 1) = Inr q"
    by (simp add: py_truediv_def)
  moreover have "\<exists>tpw. time_per_word words D = Inr tpw"
    by (simp add: time_per_word_guarded)
  ultimately show ?thesis by blast
qed

theorem generate_never_raises_witness:
  "generate_viseme_sequence [] 0 = Inr [] \<and>
   word_to_visemes [] = Inr [0] \<and>
   py_truediv 5 (max 0 1) = Inr 5 \<and>
   time_per_word [] 0 = Inr 0"
proof -
  have "generate_viseme_sequence [] 0 = Inr []"
    and "word_to_visemes [] = Inr [0]"
    and "py_truediv 5 (max 0 1) = Inr 5"
    and "time_per_word [] 0 = Inr 0"
    by code_simp+
  with generate_never_raises [of "[]" 0 "[]" 5 0 "[]"] show ?thesis
    by simp
qed




text \<open>
  C5 (empty text). For every duration \<open>D\<close>, a text whose whitespace split has no
  word (the empty string, a text of whitespace only) gives the empty sequence, and the
  division for \<open>time_per_word\<close> takes the word count as 1: it returns \<open>D\<close> itself.
\<close>

theorem generate_zero_words:
  assumes "py_split (py_lower text) = [] \<or> (\<forall>c\<in>set text. py_isspace c)"
  shows "generate_viseme_sequence text D = Inr [] \<and>
         time_per_word (py_split (py_lower text)) D = Inr D"
proof -
  from assms have "py_split (py_lower text) = []"
    by (auto simp: py_split_Nil_iff)
  then show ?thesis
    by (simp add: generate_viseme_sequence_def time_per_word_def py_truediv_def)
qed

theorem generate_zero_words_witness:
  "generate_viseme_sequence [] 7 = Inr [] \<and>
   generate_viseme_sequence ''   '' 7 = Inr [] \<and>
   time_per_word (py_split (py_lower ''   '')) 7 = Inr 7"
proof -
  have h: "py_split (py_lower []) = [] \<or> (\<forall>c\<in>set []. py_isspace c)"
    by simp
  have "py_split (py_lower ''   '') = []"
    by code_simp
  then have h': "py_split (py_lower ''   '') = [] \<or> (\<forall>c\<in>set ''   ''. py_isspace c)"
    by simp
  from generate_zero_words [OF h, of 7] generate_zero_words [OF h', of 7] show ?thesis
    by simp
qed

text \<open>
  C6 (scenario B). \<^verbatim>\<open>generate_viseme_sequence("a b", 1.0)\<close> returns exactly two
  entries: viseme 8 at offset 0.0 for 0.5, then viseme 1 at offset 0.5 for 0.5.
\<close>

theorem generate_scenario_B:
  "generate_viseme_sequence ''a b'' 1 =
     Inr [\<lparr>viseme_id = 8, time_offset = 0, duration = 0.5\<rparr>,
          \<lparr>viseme_id = 1, time_offset = 0.5, duration = 0.5\<rparr>]"
  by code_simp

text \<open>
  C7 (default to silence). Both lookups are total and default to 0: a label whose
  normalised form is no key of \<^verbatim>\<open>VISEME_MAP\<close> has the viseme 0; a character that
  is no key of the letter table is mapped to 0 by the loop body, which never fails; and
  \<^verbatim>\<open>_word_to_visemes\<close> returns a list that holds 0 at the position of every such
  character.
\<close>

theorem lookups_default_to_silence:
  "(normalize_phoneme phoneme \<notin> fst ` set VISEME_MAP \<longrightarrow> phoneme_to_viseme phoneme = 0) \<and>
   ([c] \<notin> fst ` set letter_to_viseme \<longrightarrow> char_to_viseme c = Inr 0) \<and>
   (\<exists>v. char_to_viseme c = Inr v) \<and>
   (\<exists>vs. word_to_visemes word = Inr vs \<and>
      (\<forall>i<length word. [word ! i] \<notin> fst ` set letter_to_viseme \<longrightarrow> vs ! i = 0))"
proof -
  have "normalize_phoneme phoneme \<notin> fst ` set VISEME_MAP \<longrightarrow> phoneme_to_viseme phoneme = 0"
    by (simp add: phoneme_to_viseme_def dict_get_def map_of_eq_None_iff [symmetric])
  moreover have absent: "k \<notin> fst ` set letter_to_viseme \<Longrightarrow> dict_get letter_to_viseme k 0 = 0" for k
    by (simp add: dict_get_def map_of_eq_None_iff [symmetric])
  have "[c] \<notin> fst ` set letter_to_viseme \<longrightarrow> char_to_viseme c = Inr 0"
    by (simp add: char_to_viseme_def dict_contains_def map_of_eq_None_iff [symmetric])
  moreover have "\<exists>v. char_to_viseme c = Inr v"
    using char_to_viseme_total [of c] by blast
  moreover have "\<exists>vs. word_to_visemes word = Inr vs \<and>
      (\<forall>i<length word. [word ! i] \<notin> fst ` set letter_to_viseme \<longrightarrow> vs ! i = 0)"
    using absent by (cases "word = []") (simp_all add: word_to_visemes_map)
  ultimately show ?thesis by blast
qed

theorem lookups_default_to_silence_witness:
  "phoneme_to_viseme ''xyz'' = 0 \<and> char_to_viseme CHR ''!'' = Inr 0 \<and>
   word_to_visemes ''c3po'' = Inr [0, 0, 1, 12]"
proof -
  have h1: "normalize_phoneme ''xyz'' \<notin> fst ` set VISEME_MAP"
    by code_simp
  have h2: "[CHR ''!''] \<notin> fst ` set letter_to_viseme"
    by code_simp
  have h3: "word_to_visemes ''c3po'' = Inr [0, 0, 1, 12]"
    by code_simp
  from lookups_default_to_silence [of "''xyz''" "CHR ''!''" "''c3po''"] h1 h2 h3 show ?thesis
    by simp
qed

text \<open>
  C8 (normalisation). For every label, \<^verbatim>\<open>phoneme_to_viseme\<close> gives the same
  viseme for the label and for its lower-cased, stripped form; in particular
  \<^verbatim>\<open>"SH"\<close> and \<^verbatim>\<open>"sh"\<close> both give 5.
\<close>

theorem phoneme_to_viseme_normalizes:
  "phoneme_to_viseme phoneme = phoneme_to_viseme (normalize_phoneme phoneme) \<and>
   phoneme_to_viseme phoneme = phoneme_to_viseme (py_strip (py_lower phoneme)) \<and>
   phoneme_to_viseme ''SH'' = 5 \<and> phoneme_to_viseme ''sh'' = 5"
proof -
  have "phoneme_to_viseme phoneme = phoneme_to_viseme (normalize_phoneme phoneme)"
    by (simp add: phoneme_to_viseme_def normalize_phoneme_idem)
  moreover have "phoneme_to_viseme ''SH'' = 5" and "phoneme_to_viseme ''sh'' = 5"
    by code_simp+
  ultimately show ?thesis
    by (simp add: normalize_phoneme_def)
qed

theorem phoneme_to_viseme_normalizes_witness:
  "phoneme_to_viseme '' Ch '' = phoneme_to_viseme ''ch'' \<and> phoneme_to_viseme ''ch'' = 5"
proof -
  have "normalize_phoneme '' Ch '' = ''ch''" and "phoneme_to_viseme ''ch'' = 5"
    by code_simp+
  with phoneme_to_viseme_normalizes [of "'' Ch ''"] show ?thesis
    by simp
qed

text \<open>
  C9 (identifiers in range). \<^verbatim>\<open>viseme_count\<close> is 15, every value of
  \<^verbatim>\<open>VISEME_MAP\<close> and every value of the letter table lies between 0 and 14, and
  every \<open>viseme_id\<close> of a generated sequence is at least 0 and below
  \<^verbatim>\<open>viseme_count\<close>.
\<close>

theorem viseme_ids_in_range:
  "viseme_count init_VisemeMapper = 15 \<and>
   (\<forall>(k, v)\<in>set VISEME_MAP. 0 \<le> v \<and> v \<le> 14) \<and>
   (\<forall>(k, v)\<in>set letter_to_viseme. 0 \<le> v \<and> v \<le> 14) \<and>
   (\<exists>es. generate_viseme_sequence text D = Inr es \<and>
      (\<forall>e\<in>set es. 0 \<le> viseme_id e \<and> viseme_id e < viseme_count init_VisemeMapper))"
proof -
  have "viseme_count init_VisemeMapper = 15"
    by (simp add: init_VisemeMapper_def)
  moreover have "\<forall>(k, v)\<in>set VISEME_MAP. 0 \<le> v \<and> v \<le> 14"
    by (simp add: VISEME_MAP_def)
  moreover have "\<forall>(k, v)\<in>set letter_to_viseme. 0 \<le> v \<and> v \<le> 14"
    by (simp add: letter_to_viseme_def)
  moreover have "\<exists>es. generate_viseme_sequence text D = Inr es \<and>
      (\<forall>e\<in>set es. 0 \<le> viseme_id e \<and> viseme_id e < viseme_count init_VisemeMapper)"
  proof -
    from generate_result [of "text" D] obtain es
      where es: "generate_viseme_sequence text D = Inr es"
        and ids: "\<forall>e\<in>set es. viseme_id e \<in> letter_ids"
      by blast
    from ids have "\<forall>e\<in>set es. 0 \<le> viseme_id e \<and> viseme_id e < 15"
      unfolding letter_ids_def by fastforce
    with es show ?thesis
      by (auto simp: init_VisemeMapper_def)
  qed
  ultimately show ?thesis by blast
qed

theorem viseme_ids_in_range_witness:
  "viseme_count init_VisemeMapper = 15 \<and>
   (\<exists>e0 e1 e2. generate_viseme_sequence ''Yo!'' 3 = Inr [e0, e1, e2] \<and>
      viseme_id e0 = 6 \<and> viseme_id e1 = 12 \<and> viseme_id e2 = 0 \<and>
      viseme_id e0 < viseme_count init_VisemeMapper)"
proof -
  have g: "generate_viseme_sequence ''Yo!'' 3 =
      Inr [\<lparr>viseme_id = 6, time_offset = 0, duration = 1\<rparr>,
           \<lparr>viseme_id = 12, time_offset = 1, duration = 1\<rparr>,
           \<lparr>viseme_id = 0, time_offset = 2, duration = 1\<rparr>]"
    by code_simp
  from viseme_ids_in_range [of "''Yo!''" 3] g show ?thesis
    by simp
qed

text \<open>
  C10 (reachable identifiers). Every \<open>viseme_id\<close> of a generated sequence is one
  of 0, 1, 2, 4, 5, 6, 7, 8, 10, 11, 12, so 3, 9, 13 and 14 never appear. The loop
  looks up single characters, so the keys \<^verbatim>\<open>'ch'\<close> and \<^verbatim>\<open>'sh'\<close> are never
  hit: the value of a character is what the table without its longer keys gives, the
  character \<^verbatim>\<open>'c'\<close> is mapped to 0, and the words \<^verbatim>\<open>"ch"\<close> and \<^verbatim>\<open>"sh"\<close>
  are read letter by letter.
\<close>

theorem generate_reachable_ids:
  "(\<exists>es. generate_viseme_sequence text D = Inr es \<and>
      (\<forall>e\<in>set es. viseme_id e \<in> {0, 1, 2, 4, 5, 6, 7, 8, 10, 11, 12} \<and>
                   viseme_id e \<notin> {3, 9, 13, 14})) \<and>
   char_to_viseme c =
     Inr (dict_get (filter (\<lambda>(k, v). length k = 1) letter_to_viseme) [c] 0) \<and>
   char_to_viseme CHR ''c'' = Inr 0 \<and>
   word_to_visemes ''ch'' = Inr [0, 7] \<and> word_to_visemes ''sh'' = Inr [4, 7]"
proof -
  have "\<exists>es. generate_viseme_sequence text D = Inr es \<and>
      (\<forall>e\<in>set es. viseme_id e \<in> {0, 1, 2, 4, 5, 6, 7, 8, 10, 11, 12} \<and>
                   viseme_id e \<notin> {3, 9, 13, 14})"
  proof -
    from generate_result [of "text" D] obtain es
      where es: "generate_viseme_sequence text D = Inr es"
        and ids: "\<forall>e\<in>set es. viseme_id e \<in> letter_ids"
      by blast
    from ids have "\<forall>e\<in>set es. viseme_id e \<in> {0, 1, 2, 4, 5, 6, 7, 8, 10, 11, 12} \<and>
                   viseme_id e \<notin> {3, 9, 13, 14}"
      unfolding letter_ids_def by fastforce
    with es show ?thesis by blast
  qed
  moreover have "char_to_viseme c =
     Inr (dict_get (filter (\<lambda>(k, v). length k = 1) letter_to_viseme) [c] 0)"
  proof -
    have "map_of (filter (\<lambda>(k, v). length k = 1) letter_to_viseme) [c] =
        map_of letter_to_viseme [c]"
      using map_of_filter_key [where P = "\<lambda>k. length k = 1" and k = "[c]"]
      by simp
    then show ?thesis
      unfolding char_to_viseme_def dict_contains_def dict_item_def dict_get_def
      by (simp split: option.splits)
  qed
  moreover have "char_to_viseme CHR ''c'' = Inr 0"
    and "word_to_visemes ''ch'' = Inr [0, 7]" and "word_to_visemes ''sh'' = Inr [4, 7]"
    by code_simp+
  ultimately show ?thesis by blast
qed

theorem generate_reachable_ids_witness:
  "(\<exists>e0 e1 e2. generate_viseme_sequence ''chs'' 3 = Inr [e0, e1, e2] \<and>
      viseme_id e0 = 0 \<and> viseme_id e1 = 7 \<and> viseme_id e2 = 4) \<and>
   char_to_viseme CHR ''s'' = Inr 4"
proof -
  have g: "generate_viseme_sequence ''chs'' 3 =
      Inr [\<lparr>viseme_id = 0, time_offset = 0, duration = 1\<rparr>,
           \<lparr>viseme_id = 7, time_offset = 1, duration = 1\<rparr>,
           \<lparr>viseme_id = 4, time_offset = 2, duration = 1\<rparr>]"
    by code_simp
  have "dict_get (filter (\<lambda>(k, v). length k = 1) letter_to_viseme) ''s'' 0 = 4"
    by code_simp
  with generate_reachable_ids [of "''chs''" 3 "CHR ''s''"] g show ?thesis
    by simp
qed

end
